theory Spec2Isabelle
  imports Complex_Main
begin

section \<open>Scene distribution: data model\<close>

text \<open>
  The embedding follows \<^verbatim>\<open>Scene_distribution.py\<close>. A scene is the pair
  \<^verbatim>\<open>(start_sec, end_sec)\<close>. The Python values are floats; the model computes
  with real numbers, so every statement below is about exact arithmetic.
\<close>

type_synonym scene = "real \<times> real"

subsection \<open>merge\_short\_scenes\<close>

text \<open>
  \<^verbatim>\<open>
  for start, end in scenes[1:]:
      prev_start, prev_end = merged[-1]
      duration = end - start
      if duration < min_duration:
          merged[-1] = (prev_start, end)
      else:
          merged.append((start, end))
  \<close>
  The loop over \<^verbatim>\<open>scenes[1:]\<close>, with the list \<^verbatim>\<open>merged\<close> passed along.
  \<^verbatim>\<open>merged[-1]\<close> is the last element, and the assignment to it replaces that
  element in place. The list \<^verbatim>\<open>merged\<close> starts with one scene and never
  shrinks, so the loop never reads the last element of an empty list.
\<close>

fun merge_loop :: "real \<Rightarrow> scene list \<Rightarrow> scene list \<Rightarrow> scene list" where
  "merge_loop min_duration merged [] = merged"
| "merge_loop min_duration merged ((start, end) # rest) =
     (let (prev_start, prev_end) = last merged;
          duration = end - start
      in if duration < min_duration
         then merge_loop min_duration
                (merged[length merged - 1 := (prev_start, end)]) rest
         else merge_loop min_duration (merged @ [(start, end)]) rest)"

text \<open>
  \<^verbatim>\<open>
  if not scenes:
      return []
  merged = [scenes[0]]
  \<close>
\<close>

definition merge_short_scenes :: "scene list \<Rightarrow> real \<Rightarrow> scene list" where
  "merge_short_scenes scenes min_duration =
     (case scenes of
        [] \<Rightarrow> []
      | first # rest \<Rightarrow> merge_loop min_duration [first] rest)"

text \<open>The length of a scene, and the sum of the lengths of a scene list.\<close>

definition duration_of :: "scene \<Rightarrow> real" where
  "duration_of s = snd s - fst s"

definition total_duration :: "scene list \<Rightarrow> real" where
  "total_duration scenes = sum_list (map duration_of scenes)"

text \<open>Each scene ends where the next one starts.\<close>

fun contiguous :: "scene list \<Rightarrow> bool" where
  "contiguous [] = True"
| "contiguous [s] = True"
| "contiguous (s # t # rest) = (snd s = fst t \<and> contiguous (t # rest))"

text \<open>No scene ends before it starts.\<close>

definition forward :: "scene list \<Rightarrow> bool" where
  "forward scenes = list_all (\<lambda>s. fst s \<le> snd s) scenes"

text \<open>
  The merge pass in the words of the specification: the result is seeded with the first
  scene; a later scene whose own duration is below the minimum extends the last merged
  scene to its end, any other scene is appended unchanged.
\<close>

definition spec_merge_step :: "real \<Rightarrow> scene list \<Rightarrow> scene \<Rightarrow> scene list" where
  "spec_merge_step min_duration merged s =
     (if snd s - fst s < min_duration
      then butlast merged @ [(fst (last merged), snd s)]
      else merged @ [s])"

definition spec_merge :: "scene list \<Rightarrow> real \<Rightarrow> scene list" where
  "spec_merge scenes min_duration =
     (if scenes = [] then []
      else foldl (spec_merge_step min_duration) [hd scenes] (tl scenes))"

subsection \<open>detect\_scenes\_dynamic: the collaborators\<close>

text \<open>
  The ways the function can fail: \<^verbatim>\<open>IOError\<close> raised by line 32,
  \<^verbatim>\<open>ZeroDivisionError\<close> raised by the float division of line 79, and an exception
  that a library call raises and the function lets through (it has no
  \<^verbatim>\<open>try\<close> statement).
\<close>

datatype error = IOError | ZeroDivisionError | LibraryError

text \<open>
  The state of a \<^verbatim>\<open>cv2.VideoCapture\<close>: whether it is open, the two metadata
  values the function reads (\<^verbatim>\<open>CAP_PROP_FPS\<close> and the integer part of
  \<^verbatim>\<open>CAP_PROP_FRAME_COUNT\<close>), the frames not yet consumed, and how often
  \<^verbatim>\<open>release\<close> has been called on it.
\<close>

record 'f video_capture =
  cap_is_opened :: bool
  cap_fps :: real
  cap_frame_count :: int
  cap_frames :: "'f list"
  cap_released :: nat

text \<open>\<^verbatim>\<open>cap.read()\<close> returns the next frame and advances, or fails at the end.\<close>

definition cap_read :: "'f video_capture \<Rightarrow> 'f option \<times> 'f video_capture" where
  "cap_read cap =
     (case cap_frames cap of
        [] \<Rightarrow> (None, cap)
      | frame # later \<Rightarrow> (Some frame, cap\<lparr>cap_frames := later\<rparr>))"

text \<open>\<^verbatim>\<open>cap.grab()\<close> advances by one frame without decoding it, or fails at the end.\<close>

definition cap_grab :: "'f video_capture \<Rightarrow> bool \<times> 'f video_capture" where
  "cap_grab cap =
     (case cap_frames cap of
        [] \<Rightarrow> (False, cap)
      | frame # later \<Rightarrow> (True, cap\<lparr>cap_frames := later\<rparr>))"

definition cap_release :: "'f video_capture \<Rightarrow> 'f video_capture" where
  "cap_release cap = cap\<lparr>cap_is_opened := False, cap_released := Suc (cap_released cap)\<rparr>"

text \<open>
  The methods of the capture report a failure through their results (\<^verbatim>\<open>isOpened\<close>
  false, \<^verbatim>\<open>ret\<close> false) and are total here. The other library calls can raise:
  a call that raises has the result \<open>None\<close>.

  The detector is a black box with a state of its own. What it returns to a call depends
  on all the calls it has received, so it is a function of its call history: applied to
  the calls made so far, the last one being the current call, it gives the cut indices
  that call returns, or raises.
\<close>

datatype 'f det_call = ProcessFrame int 'f | PostProcess int

type_synonym 'f detector = "'f det_call list \<Rightarrow> int list option"

text \<open>
  The library operations: \<^verbatim>\<open>cv2.cvtColor(frame, cv2.COLOR_BGR2GRAY)\<close>,
  \<^verbatim>\<open>cv2.absdiff(a, b).mean()\<close>, and the constructor
  \<^verbatim>\<open>AdaptiveDetector(adaptive_threshold, window_width, min_content_val, min_scene_len)\<close>,
  which gives a detector or raises.
\<close>

record ('f, 'g) externals =
  cvt_gray :: "'f \<Rightarrow> 'g option"
  absdiff_mean :: "'g \<Rightarrow> 'g \<Rightarrow> real option"
  adaptive_detector :: "real \<Rightarrow> int \<Rightarrow> real \<Rightarrow> int \<Rightarrow> 'f detector option"

subsection \<open>detect\_scenes\_dynamic: the frame loop\<close>

text \<open>\<^verbatim>\<open>skip = min_skip if motion_val > motion_threshold else max_skip\<close>\<close>

definition skip_decision :: "real \<Rightarrow> int \<Rightarrow> int \<Rightarrow> real \<Rightarrow> int" where
  "skip_decision motion_threshold min_skip max_skip motion_val =
     (if motion_val > motion_threshold then min_skip else max_skip)"

text \<open>
  \<^verbatim>\<open>
  for _ in range(skip):
      if not cap.grab():
          break
      frame_num += 1
  \<close>
  The first argument counts the iterations left; \<^verbatim>\<open>range(skip)\<close> is empty for
  \<^verbatim>\<open>skip <= 0\<close>, so the loop is entered with \<open>nat skip\<close>.
\<close>

fun skip_loop :: "nat \<Rightarrow> 'f video_capture \<Rightarrow> int \<Rightarrow> 'f video_capture \<times> int" where
  "skip_loop 0 cap frame_num = (cap, frame_num)"
| "skip_loop (Suc k) cap frame_num =
     (case cap_grab cap of
        (False, cap') \<Rightarrow> (cap', frame_num)
      | (True, cap') \<Rightarrow> skip_loop k cap' (frame_num + 1))"

lemma skip_loop_frames:
  "skip_loop k cap n =
     (cap\<lparr>cap_frames := drop k (cap_frames cap)\<rparr>, n + int (min k (length (cap_frames cap))))"
proof (induction k arbitrary: cap n)
  case 0
  show ?case by simp
next
  case (Suc k)
  show ?case
  proof (cases "cap_frames cap")
    case Nil
    then show ?thesis by (simp add: cap_grab_def)
  next
    case (Cons frame later)
    then show ?thesis by (simp add: cap_grab_def Suc.IH)
  qed
qed

text \<open>
  The \<^verbatim>\<open>while True\<close> loop of lines 52 to 71. Its state is the capture, the previous
  gray image, the calls the detector has received, the cut indices collected and the
  frame index. It ends when \<^verbatim>\<open>cap.read()\<close> fails, or when one of the library
  calls of lines 57, 58 and 61 raises. The result is the capture and the call history as
  the loop leaves them, and either the exception or the cut indices and the frame index.
  The statement \<^verbatim>\<open>if cuts: cut_frame_nums.extend(cuts)\<close> appends the list the detector
  returned; appending an empty list changes nothing. Each round consumes a frame of a
  finite source, so the loop ends.
\<close>

function detect_loop ::
  "('f, 'g) externals \<Rightarrow> 'f detector \<Rightarrow> real \<Rightarrow> int \<Rightarrow> int \<Rightarrow> 'f video_capture \<Rightarrow> 'g \<Rightarrow>
   'f det_call list \<Rightarrow> int list \<Rightarrow> int \<Rightarrow>
   'f video_capture \<times> 'f det_call list \<times> (error + int list \<times> int)" where
  "detect_loop ext det motion_threshold min_skip max_skip cap prev_gray calls cut_frame_nums
     frame_num =
     (case cap_read cap of
        (None, cap1) \<Rightarrow> (cap1, calls, Inr (cut_frame_nums, frame_num))
      | (Some frame, cap1) \<Rightarrow>
          (case cvt_gray ext frame of
             None \<Rightarrow> (cap1, calls, Inl LibraryError)
           | Some gray \<Rightarrow>
               (case absdiff_mean ext prev_gray gray of
                  None \<Rightarrow> (cap1, calls, Inl LibraryError)
                | Some motion_val \<Rightarrow>
                    (let skip = skip_decision motion_threshold min_skip max_skip motion_val;
                         calls1 = calls @ [ProcessFrame frame_num frame]
                     in case det calls1 of
                          None \<Rightarrow> (cap1, calls1, Inl LibraryError)
                        | Some cuts \<Rightarrow>
                            (let cut_frame_nums1 = cut_frame_nums @ cuts;
                                 (cap2, frame_num1) = skip_loop (nat skip) cap1 frame_num
                             in detect_loop ext det motion_threshold min_skip max_skip cap2
                                  gray calls1 cut_frame_nums1 (frame_num1 + 1))))))"
  by pat_completeness auto
termination
proof (relation "measure (\<lambda>(ext, det, th, mn, mx, cap, rest). length (cap_frames cap))")
  show "wf (measure (\<lambda>(ext, det, th, mn, mx, cap, rest). length (cap_frames cap)))"
    by simp
qed (auto simp: skip_loop_frames cap_read_def split: list.splits)

subsection \<open>detect\_scenes\_dynamic: from cut indices to scenes\<close>

text \<open>\<^verbatim>\<open>sorted(set(cut_frame_nums))\<close>: each value once, ascending.\<close>

definition sorted_unique :: "int list \<Rightarrow> int list" where
  "sorted_unique cut_frame_nums = sort (remdups cut_frame_nums)"

text \<open>\<^verbatim>\<open>boundaries = [0] + cut_frame_nums + [total_frames]\<close>, after line 77.\<close>

definition boundaries_of :: "int list \<Rightarrow> int \<Rightarrow> int list" where
  "boundaries_of cut_frame_nums total_frames =
     [0] @ sorted_unique cut_frame_nums @ [total_frames]"

text \<open>
  \<^verbatim>\<open>boundaries[i]/fps\<close> divides an integer by a float: Python raises
  \<^verbatim>\<open>ZeroDivisionError\<close> when the float is zero.
\<close>

definition py_truediv :: "int \<Rightarrow> real \<Rightarrow> error + real" where
  "py_truediv n d = (if d = 0 then Inl ZeroDivisionError else Inr (real_of_int n / d))"

text \<open>One element of the list comprehension of lines 79 and 80.\<close>

definition scene_at :: "real \<Rightarrow> int list \<Rightarrow> nat \<Rightarrow> error + scene" where
  "scene_at fps boundaries i =
     (case py_truediv (boundaries ! i) fps of
        Inl e \<Rightarrow> Inl e
      | Inr start_sec \<Rightarrow>
          (case py_truediv (boundaries ! (i + 1)) fps of
             Inl e \<Rightarrow> Inl e
           | Inr end_sec \<Rightarrow> Inr (start_sec, end_sec)))"

text \<open>The elements are computed in order; the first one that raises ends the comprehension.\<close>

fun collect :: "(error + 'a) list \<Rightarrow> error + 'a list" where
  "collect [] = Inr []"
| "collect (x # xs) =
     (case x of
        Inl e \<Rightarrow> Inl e
      | Inr v \<Rightarrow> (case collect xs of Inl e \<Rightarrow> Inl e | Inr vs \<Rightarrow> Inr (v # vs)))"

definition scenes_of :: "real \<Rightarrow> int list \<Rightarrow> error + scene list" where
  "scenes_of fps boundaries =
     collect (map (scene_at fps boundaries) [0..<length boundaries - 1])"

text \<open>Lines 77 to 81: the scenes from the collected cut indices.\<close>

definition build_scenes :: "real \<Rightarrow> int list \<Rightarrow> int \<Rightarrow> error + scene list" where
  "build_scenes fps cut_frame_nums total_frames =
     scenes_of fps (boundaries_of cut_frame_nums total_frames)"

subsection \<open>detect\_scenes\_dynamic\<close>

text \<open>
  What a run leaves behind: the value returned or the exception raised, the capture as
  the function leaves it, and the calls the detector has received.
\<close>

record 'f outcome =
  returned :: "error + scene list"
  capture :: "'f video_capture"
  detector_calls :: "'f det_call list"

text \<open>
  The function, applied to the capture that \<^verbatim>\<open>cv2.VideoCapture(input_path)\<close> gives,
  with its six tunables in the order of the source. The frame rate and the frame count
  are read and the detector is constructed (lines 36 to 41, with
  \<^verbatim>\<open>min_scene_len=1\<close>) before the first frame is read. The capture is released at
  lines 45 and 75 only: the exception of line 32 and an exception of a library call leave
  the function without a release.
\<close>

definition detect_scenes_dynamic ::
  "('f, 'g) externals \<Rightarrow> 'f video_capture \<Rightarrow> real \<Rightarrow> int \<Rightarrow> int \<Rightarrow> real \<Rightarrow> int \<Rightarrow> real \<Rightarrow>
   'f outcome" where
  "detect_scenes_dynamic ext cap motion_threshold min_skip max_skip adaptive_threshold
     window_width min_content_val =
     (if \<not> cap_is_opened cap
      then \<lparr>returned = Inl IOError, capture = cap, detector_calls = []\<rparr>
      else
        let fps = cap_fps cap;
            total_frames = cap_frame_count cap
        in case adaptive_detector ext adaptive_threshold window_width min_content_val 1 of
             None \<Rightarrow> \<lparr>returned = Inl LibraryError, capture = cap, detector_calls = []\<rparr>
           | Some det \<Rightarrow>
               (case cap_read cap of
                  (None, cap1) \<Rightarrow>
                    \<lparr>returned = Inr [], capture = cap_release cap1, detector_calls = []\<rparr>
                | (Some prev_frame, cap1) \<Rightarrow>
                    (case cvt_gray ext prev_frame of
                       None \<Rightarrow>
                         \<lparr>returned = Inl LibraryError, capture = cap1, detector_calls = []\<rparr>
                     | Some prev_gray \<Rightarrow>
                         (case detect_loop ext det motion_threshold min_skip max_skip cap1
                                 prev_gray [] [] 1 of
                            (cap2, calls, Inl e) \<Rightarrow>
                              \<lparr>returned = Inl e, capture = cap2, detector_calls = calls\<rparr>
                          | (cap2, calls, Inr (cut_frame_nums, frame_num)) \<Rightarrow>
                              (let calls1 = calls @ [PostProcess frame_num]
                               in case det calls1 of
                                    None \<Rightarrow>
                                      \<lparr>returned = Inl LibraryError, capture = cap2,
                                         detector_calls = calls1\<rparr>
                                  | Some cuts \<Rightarrow>
                                      (let cut_frame_nums1 = cut_frame_nums @ cuts;
                                           cap3 = cap_release cap2
                                       in \<lparr>returned =
                                              build_scenes fps cut_frame_nums1 total_frames,
                                            capture = cap3,
                                            detector_calls = calls1\<rparr>))))))"

subsection \<open>Notions the statements use\<close>

text \<open>A scene that the merge test does not select: its duration is not below the minimum.\<close>

definition long_enough :: "real \<Rightarrow> scene \<Rightarrow> bool" where
  "long_enough md s = (\<not> duration_of s < md)"

text \<open>The adjacent pairs of a list.\<close>

definition adjacent_pairs :: "'a list \<Rightarrow> ('a \<times> 'a) list" where
  "adjacent_pairs xs = zip xs (tl xs)"

text \<open>
  The frames the detector was fed with, each with the index it was given: the
  \<^verbatim>\<open>process_frame\<close> calls of a call history, in order.
\<close>

fun fed :: "'f det_call list \<Rightarrow> (int \<times> 'f) list" where
  "fed [] = []"
| "fed (ProcessFrame n f # calls) = (n, f) # fed calls"
| "fed (PostProcess n # calls) = fed calls"

text \<open>
  Everything the detector returned to the calls \<open>calls\<close>, made after the calls
  \<open>history\<close>: the lists returned, one after the other.
\<close>

fun reports :: "'f detector \<Rightarrow> 'f det_call list \<Rightarrow> 'f det_call list \<Rightarrow> int list" where
  "reports det history [] = []"
| "reports det history (call # later) =
     (case det (history @ [call]) of None \<Rightarrow> [] | Some cuts \<Rightarrow> cuts)
     @ reports det (history @ [call]) later"

text \<open>
  The indices of a run of analysed frames follow the skip decisions: after a frame with
  index \<open>n\<close> and skip decision \<open>skip\<close> the next analysed frame has index
  \<open>n + max 0 skip + 1\<close>. The decision for a frame compares it with the analysed frame
  before it, whose gray image is the fifth argument. A frame that was followed by
  another analysed frame had a gray image and a motion value.
\<close>

fun index_chain ::
  "('f, 'g) externals \<Rightarrow> real \<Rightarrow> int \<Rightarrow> int \<Rightarrow> 'g \<Rightarrow> (int \<times> 'f) list \<Rightarrow> bool" where
  "index_chain ext th mn mx prev_gray [] = True"
| "index_chain ext th mn mx prev_gray [(n, f)] = True"
| "index_chain ext th mn mx prev_gray ((n, f) # (n', f') # later) =
     (case cvt_gray ext f of
        None \<Rightarrow> False
      | Some gray \<Rightarrow>
          (case absdiff_mean ext prev_gray gray of
             None \<Rightarrow> False
           | Some motion_val \<Rightarrow>
               n' = n + max 0 (skip_decision th mn mx motion_val) + 1 \<and>
               index_chain ext th mn mx gray ((n', f') # later)))"

text \<open>
  What the frame loop adds to the call history when it starts with index \<open>n\<close> on the
  frames \<open>frames\<close>, however it ends: the first frame analysed is the first remaining
  frame, with index \<open>n\<close>, the indices follow the skip decisions, and every analysed
  frame is the frame at the position its index names.
\<close>

definition trace_ok ::
  "('f, 'g) externals \<Rightarrow> real \<Rightarrow> int \<Rightarrow> int \<Rightarrow> 'g \<Rightarrow> int \<Rightarrow> 'f list \<Rightarrow> (int \<times> 'f) list \<Rightarrow> bool" where
  "trace_ok ext th mn mx pg n frames new =
     ((frames = [] \<longrightarrow> new = []) \<and>
      (new \<noteq> [] \<longrightarrow> hd new = (n, hd frames)) \<and>
      index_chain ext th mn mx pg new \<and>
      (\<forall>(j, g) \<in> set new. n \<le> j \<and> j < n + int (length frames) \<and> g = frames ! nat (j - n)))"

text \<open>No call of the image operations and of the detector \<open>det\<close> raises.\<close>

definition quiet :: "('f, 'g) externals \<Rightarrow> 'f detector \<Rightarrow> bool" where
  "quiet ext det =
     ((\<forall>frame. cvt_gray ext frame \<noteq> None) \<and>
      (\<forall>a b. absdiff_mean ext a b \<noteq> None) \<and>
      (\<forall>calls. det calls \<noteq> None))"

text \<open>
  No library call of a run with the given detector tunables raises: the constructor
  gives a detector, and the image operations and that detector are quiet.
\<close>

definition never_raises :: "('f, 'g) externals \<Rightarrow> real \<Rightarrow> int \<Rightarrow> real \<Rightarrow> bool" where
  "never_raises ext adaptive_threshold window_width min_content_val =
     (case adaptive_detector ext adaptive_threshold window_width min_content_val 1 of
        None \<Rightarrow> False
      | Some det \<Rightarrow> quiet ext det)"

text \<open>
  What the frame loop has done when it ends, in terms of the state it started in: the
  calls it added are \<^verbatim>\<open>process_frame\<close> calls that satisfy \<open>trace_ok\<close>; it has
  neither released nor closed the capture; when it raised, a library call raised; when it
  ended at the end of the source, it has analysed a frame if there was one, the frame
  index has advanced by the number of frames, and the cut indices collected are what the
  detector returned.
\<close>

definition loop_post ::
  "('f, 'g) externals \<Rightarrow> 'f detector \<Rightarrow> real \<Rightarrow> int \<Rightarrow> int \<Rightarrow> 'f video_capture \<Rightarrow> 'g \<Rightarrow>
   'f det_call list \<Rightarrow> int list \<Rightarrow> int \<Rightarrow>
   'f video_capture \<times> 'f det_call list \<times> (error + int list \<times> int) \<Rightarrow> bool" where
  "loop_post ext det th mn mx cap pg calls cuts n result =
     (case result of (cap', calls', res) \<Rightarrow>
        (\<exists>new.
           calls' = calls @ map (\<lambda>(k, f). ProcessFrame k f) new \<and>
           trace_ok ext th mn mx pg n (cap_frames cap) new \<and>
           cap_released cap' = cap_released cap \<and>
           cap_is_opened cap' = cap_is_opened cap \<and>
           (case res of
              Inl e \<Rightarrow> e = LibraryError \<and> \<not> quiet ext det
            | Inr (cuts', n') \<Rightarrow>
                cap_frames cap' = [] \<and>
                n' = n + int (length (cap_frames cap)) \<and>
                (cap_frames cap \<noteq> [] \<longrightarrow> new \<noteq> []) \<and>
                cuts' = cuts @ reports det calls (map (\<lambda>(k, f). ProcessFrame k f) new))))"

text \<open>
  What a run has done when it ends, on an opened source whose first frame \<open>f0\<close> was
  converted to \<open>g0\<close> and is followed by the frames \<open>fs\<close>: the frames fed to the
  detector satisfy \<open>trace_ok\<close>; and either a library call raised, and the capture is as
  open and as often released as before, or the function reached line 75: the scenes are
  built from what the detector returned, the last call is the flush with the number of
  frames, and the capture has been released once more.
\<close>

definition run_post ::
  "('f, 'g) externals \<Rightarrow> 'f detector \<Rightarrow> real \<Rightarrow> int \<Rightarrow> int \<Rightarrow> 'f video_capture \<Rightarrow> 'g \<Rightarrow>
   'f list \<Rightarrow> 'f outcome \<Rightarrow> bool" where
  "run_post ext det th mn mx cap g0 fs r =
     (trace_ok ext th mn mx g0 1 fs (fed (detector_calls r)) \<and>
      (returned r = Inl LibraryError \<and> \<not> quiet ext det \<and>
         cap_released (capture r) = cap_released cap \<and>
         cap_is_opened (capture r) = cap_is_opened cap \<or>
       returned r =
         build_scenes (cap_fps cap) (reports det [] (detector_calls r)) (cap_frame_count cap) \<and>
         detector_calls r =
           map (\<lambda>(k, f). ProcessFrame k f) (fed (detector_calls r))
           @ [PostProcess (1 + int (length fs))] \<and>
         (fs \<noteq> [] \<longrightarrow> fed (detector_calls r) \<noteq> []) \<and>
         cap_released (capture r) = Suc (cap_released cap)))"

subsection \<open>Example inputs\<close>

text \<open>
  A small instance of the collaborators: a frame is a number (its brightness), the gray
  image of a frame is the frame, and the mean absolute difference of two gray images is
  the distance of the numbers. The constructor of the detector raises for a window width
  below 1. The detector reports the cut index 2 when it is fed the frame with index 2,
  and reports it again at the final flush. The capture is open and holds the given
  frames; its metadata frame count is their number. In the second instance the frame 0
  is one that cannot be converted: the conversion raises on it.
\<close>

definition demo_externals :: "(nat, nat) externals" where
  "demo_externals =
     \<lparr>cvt_gray = (\<lambda>frame. Some frame),
      absdiff_mean = (\<lambda>a b. Some \<bar>real a - real b\<bar>),
      adaptive_detector =
        (\<lambda>adaptive_threshold window_width min_content_val min_scene_len.
           if window_width < 1 then None
           else Some (\<lambda>calls. case last calls of
                                 ProcessFrame n frame \<Rightarrow> Some (if n = 2 then [2] else [])
                               | PostProcess n \<Rightarrow> Some [2]))\<rparr>"

definition fragile_externals :: "(nat, nat) externals" where
  "fragile_externals =
     demo_externals\<lparr>cvt_gray := (\<lambda>frame. if frame = 0 then None else Some frame)\<rparr>"

definition demo_capture :: "nat list \<Rightarrow> real \<Rightarrow> nat video_capture" where
  "demo_capture frames fps =
     \<lparr>cap_is_opened = True, cap_fps = fps, cap_frame_count = int (length frames),
      cap_frames = frames, cap_released = 0\<rparr>"

section \<open>The scene merger\<close>

subsection \<open>The loop, one scene at a time\<close>

lemma update_last:
  "merged \<noteq> [] \<Longrightarrow> merged[length merged - Suc 0 := x] = butlast merged @ [x]"
  by (induction merged rule: rev_induct) (simp_all add: list_update_append)

lemma merge_loop_step:
  "merged \<noteq> [] \<Longrightarrow>
   merge_loop md merged (s # rest) = merge_loop md (spec_merge_step md merged s) rest"
  by (cases s) (simp add: spec_merge_step_def update_last split: prod.splits)

lemma spec_merge_step_nonempty: "spec_merge_step md merged s \<noteq> []"
  by (simp add: spec_merge_step_def)

lemma merge_loop_foldl:
  "merged \<noteq> [] \<Longrightarrow> merge_loop md merged rest = foldl (spec_merge_step md) merged rest"
proof (induction rest arbitrary: merged)
  case Nil
  show ?case by simp
next
  case (Cons s rest)
  have "merge_loop md merged (s # rest) = merge_loop md (spec_merge_step md merged s) rest"
    using Cons.prems by (rule merge_loop_step)
  also have "\<dots> = foldl (spec_merge_step md) (spec_merge_step md merged s) rest"
    by (rule Cons.IH) (rule spec_merge_step_nonempty)
  finally show ?case by simp
qed

lemma step_hd: "merged \<noteq> [] \<Longrightarrow> fst (hd (spec_merge_step md merged s)) = fst (hd merged)"
  by (cases merged rule: rev_cases; cases "butlast merged")
     (auto simp: spec_merge_step_def hd_append)

lemma step_last: "snd (last (spec_merge_step md merged s)) = snd s"
  by (simp add: spec_merge_step_def)

lemma loop_nonempty: "merged \<noteq> [] \<Longrightarrow> merge_loop md merged rest \<noteq> []"
  by (induction rest arbitrary: merged)
     (simp_all add: merge_loop_step spec_merge_step_nonempty del: merge_loop.simps(2))

lemma loop_hd: "merged \<noteq> [] \<Longrightarrow> fst (hd (merge_loop md merged rest)) = fst (hd merged)"
  by (induction rest arbitrary: merged)
     (simp_all add: merge_loop_step spec_merge_step_nonempty step_hd del: merge_loop.simps(2))

lemma loop_last:
  "merged \<noteq> [] \<Longrightarrow> snd (last (merge_loop md merged rest)) = snd (last (merged @ rest))"
  by (induction rest arbitrary: merged)
     (simp_all add: merge_loop_step spec_merge_step_nonempty step_last del: merge_loop.simps(2))

lemma contiguous_Cons:
  "contiguous (s # rest) = ((rest \<noteq> [] \<longrightarrow> snd s = fst (hd rest)) \<and> contiguous rest)"
  by (cases rest) simp_all

subsection \<open>Durations\<close>

lemma total_duration_append:
  "total_duration (xs @ ys) = total_duration xs + total_duration ys"
  by (simp add: total_duration_def)

lemma total_duration_snoc_last:
  "merged \<noteq> [] \<Longrightarrow>
   total_duration merged = total_duration (butlast merged) + duration_of (last merged)"
  by (cases merged rule: rev_cases) (simp_all add: total_duration_def)

lemma step_total:
  assumes "merged \<noteq> []" and "snd (last merged) = fst s"
  shows "total_duration (spec_merge_step md merged s) = total_duration merged + duration_of s"
  using assms total_duration_snoc_last [OF assms(1)]
  by (simp add: spec_merge_step_def total_duration_append)
     (simp add: total_duration_def duration_of_def)

lemma loop_total:
  "merged \<noteq> [] \<Longrightarrow> contiguous rest \<Longrightarrow>
   (rest \<noteq> [] \<longrightarrow> snd (last merged) = fst (hd rest)) \<Longrightarrow>
   total_duration (merge_loop md merged rest) = total_duration merged + total_duration rest"
proof (induction rest arbitrary: merged)
  case Nil
  show ?case by (simp add: total_duration_def)
next
  case (Cons s rest)
  from Cons.prems have link: "snd (last merged) = fst s" by simp
  from Cons.prems have rest: "contiguous rest" "rest \<noteq> [] \<longrightarrow> snd s = fst (hd rest)"
    by (simp_all add: contiguous_Cons)
  have "total_duration (merge_loop md merged (s # rest)) =
        total_duration (merge_loop md (spec_merge_step md merged s) rest)"
    using Cons.prems(1) by (simp add: merge_loop_step del: merge_loop.simps(2))
  also have "\<dots> = total_duration (spec_merge_step md merged s) + total_duration rest"
    using rest by (intro Cons.IH) (simp_all add: spec_merge_step_nonempty step_last)
  also have "\<dots> = total_duration merged + duration_of s + total_duration rest"
    using Cons.prems(1) link by (simp add: step_total)
  finally show ?case by (simp add: total_duration_def)
qed

subsection \<open>Scenes that the pass leaves alone\<close>

lemma loop_settled:
  "merged \<noteq> [] \<Longrightarrow> list_all (long_enough md) rest \<Longrightarrow>
   merge_loop md merged rest = merged @ rest"
proof (induction rest arbitrary: merged)
  case Nil
  show ?case by simp
next
  case (Cons s rest)
  from Cons.prems have "spec_merge_step md merged s = merged @ [s]"
    by (simp add: spec_merge_step_def long_enough_def duration_of_def)
  with Cons show ?case by (simp add: merge_loop_step del: merge_loop.simps(2))
qed

lemma step_long:
  assumes "merged \<noteq> []" and "list_all (long_enough md) (tl merged)"
    and "snd (last merged) = fst s" and "fst s \<le> snd s"
  shows "list_all (long_enough md) (tl (spec_merge_step md merged s))"
proof (cases "snd s - fst s < md")
  case False
  with assms show ?thesis
    by (simp add: spec_merge_step_def long_enough_def duration_of_def)
next
  case True
  from assms(1) obtain ys x where m: "merged = ys @ [x]"
    by (cases merged rule: rev_cases) auto
  show ?thesis
  proof (cases ys)
    case Nil
    with m True show ?thesis by (simp add: spec_merge_step_def)
  next
    case (Cons y zs)
    with m assms True show ?thesis
      by (simp add: spec_merge_step_def long_enough_def duration_of_def)
  qed
qed

lemma loop_long:
  "merged \<noteq> [] \<Longrightarrow> list_all (long_enough md) (tl merged) \<Longrightarrow>
   contiguous rest \<Longrightarrow> forward rest \<Longrightarrow>
   (rest \<noteq> [] \<longrightarrow> snd (last merged) = fst (hd rest)) \<Longrightarrow>
   list_all (long_enough md) (tl (merge_loop md merged rest))"
proof (induction rest arbitrary: merged)
  case Nil
  then show ?case by simp
next
  case (Cons s rest)
  from Cons.prems have here: "snd (last merged) = fst s" "fst s \<le> snd s"
    by (simp_all add: forward_def)
  from Cons.prems have rest: "contiguous rest" "forward rest"
      "rest \<noteq> [] \<longrightarrow> snd s = fst (hd rest)"
    by (simp_all add: contiguous_Cons forward_def)
  have "list_all (long_enough md) (tl (merge_loop md (spec_merge_step md merged s) rest))"
    using rest Cons.prems(1,2) here
    by (intro Cons.IH) (simp_all add: spec_merge_step_nonempty step_last step_long)
  with Cons.prems(1) show ?case by (simp add: merge_loop_step del: merge_loop.simps(2))
qed

lemma merge_long:
  assumes "contiguous scenes" and "forward scenes"
  shows "list_all (long_enough md) (tl (merge_short_scenes scenes md))"
proof (cases scenes)
  case Nil
  then show ?thesis by (simp add: merge_short_scenes_def)
next
  case (Cons s rest)
  with assms have "list_all (long_enough md) (tl (merge_loop md [s] rest))"
    by (intro loop_long) (simp_all add: contiguous_Cons forward_def)
  with Cons show ?thesis by (simp add: merge_short_scenes_def)
qed

lemma merge_settled:
  assumes "list_all (long_enough md) (tl scenes)"
  shows "merge_short_scenes scenes md = scenes"
proof (cases scenes)
  case Nil
  then show ?thesis by (simp add: merge_short_scenes_def)
next
  case (Cons t out)
  with assms have "merge_loop md [t] out = [t] @ out" by (intro loop_settled) simp_all
  with Cons show ?thesis by (simp add: merge_short_scenes_def)
qed

subsection \<open>The claims about the scene merger\<close>

text \<open>
  Claim C2. For every scene list and every minimum duration, the merge pass is the pass
  the specification describes: the result is seeded with the first scene as it is; each
  later scene \<open>(start, end)\<close>, in order, is tested on its own duration \<open>end - start\<close>;
  when that is below the minimum the last merged scene \<open>(prev_start, prev_end)\<close> becomes
  \<open>(prev_start, end)\<close>, otherwise \<open>(start, end)\<close> is appended unchanged. The scenes
  \<open>[(0,2), (2,3), (3,10)]\<close> with minimum 2 give \<open>[(0,3), (3,10)]\<close>; a scene list of
  one scene is returned as it is, whatever its duration, and in a longer list a short
  first scene still opens the result; the empty list gives the empty list.
\<close>

theorem merge_short_scenes_policy:
  "merge_short_scenes scenes md = spec_merge scenes md \<and>
   merge_short_scenes (first # rest) md = foldl (spec_merge_step md) [first] rest \<and>
   spec_merge_step md (merged @ [(prev_start, prev_end)]) (start, end) =
     (if end - start < md then merged @ [(prev_start, end)]
      else merged @ [(prev_start, prev_end), (start, end)]) \<and>
   merge_short_scenes [(0, 2), (2, 3), (3, 10)] 2 = [(0, 3), (3, 10)] \<and>
   merge_short_scenes [first] md = [first] \<and>
   fst (hd (merge_short_scenes (first # rest) md)) = fst first \<and>
   merge_short_scenes [(0, 1), (1, 10)] 2 = [(0, 1), (1, 10)] \<and>
   merge_short_scenes [] md = []"
proof (intro conjI)
  show "merge_short_scenes scenes md = spec_merge scenes md"
    by (cases scenes) (simp_all add: merge_short_scenes_def spec_merge_def merge_loop_foldl)
  show "merge_short_scenes (first # rest) md = foldl (spec_merge_step md) [first] rest"
    by (simp add: merge_short_scenes_def merge_loop_foldl)
  show "spec_merge_step md (merged @ [(prev_start, prev_end)]) (start, end) =
     (if end - start < md then merged @ [(prev_start, end)]
      else merged @ [(prev_start, prev_end), (start, end)])"
    by (simp add: spec_merge_step_def)
  show "merge_short_scenes [(0, 2), (2, 3), (3, 10)] 2 = [(0, 3), (3, 10)]"
    by (simp add: merge_short_scenes_def)
  show "merge_short_scenes [first] md = [first]"
    by (simp add: merge_short_scenes_def)
  show "fst (hd (merge_short_scenes (first # rest) md)) = fst first"
    by (simp add: merge_short_scenes_def loop_hd)
  show "merge_short_scenes [(0, 1), (1, 10)] 2 = [(0, 1), (1, 10)]"
    by (simp add: merge_short_scenes_def)
  show "merge_short_scenes [] md = []"
    by (simp add: merge_short_scenes_def)
qed

text \<open>
  Claim C3, as amended. For every scene list in which each scene ends where the next one
  starts, and every minimum duration, the durations of the merged scenes add up to the
  same sum as the durations of the input scenes (in exact arithmetic).
\<close>

theorem merge_short_scenes_total_duration:
  assumes "contiguous scenes"
  shows "total_duration (merge_short_scenes scenes md) = total_duration scenes"
proof (cases scenes)
  case Nil
  then show ?thesis by (simp add: merge_short_scenes_def)
next
  case (Cons s rest)
  with assms have "total_duration (merge_loop md [s] rest) = total_duration [s] + total_duration rest"
    by (intro loop_total) (simp_all add: contiguous_Cons)
  with Cons show ?thesis by (simp add: merge_short_scenes_def total_duration_def)
qed

theorem merge_short_scenes_total_duration_witness:
  "contiguous [(0, 2), (2, 3), (3, 10)] \<and>
   total_duration (merge_short_scenes [(0, 2), (2, 3), (3, 10)] 2) = 10 \<and>
   total_duration [(0, 2), (2, 3), (3, 10)] = 10"
proof -
  have c: "contiguous [(0, 2), (2, 3), (3, 10)]" by simp
  have t: "total_duration [(0, 2), (2, 3), (3, 10)] = 10"
    by (simp add: total_duration_def duration_of_def)
  from c t merge_short_scenes_total_duration [OF c, of 2] show ?thesis by simp
qed

text \<open>
  Claim C3, as stated, fails on scenes with a gap: merging \<open>(5,6)\<close> into \<open>(0,1)\<close>
  gives \<open>(0,6)\<close>, of duration 6, where the two input scenes have durations 1 and 1.
\<close>

theorem merge_short_scenes_total_duration_counterexample:
  "merge_short_scenes [(0, 1), (5, 6)] 2 = [(0, 6)] \<and>
   total_duration (merge_short_scenes [(0, 1), (5, 6)] 2) = 6 \<and>
   total_duration [(0, 1), (5, 6)] = 2 \<and>
   total_duration (merge_short_scenes [(0, 1), (5, 6)] 2) \<noteq> total_duration [(0, 1), (5, 6)]"
  by (simp add: merge_short_scenes_def total_duration_def duration_of_def)

text \<open>
  Claim C9. For every non-empty scene list and every minimum duration, the merged list
  is non-empty, its first scene starts where the first input scene starts, and its last
  scene ends where the last input scene ends.
\<close>

theorem merge_short_scenes_ends:
  assumes "scenes \<noteq> []"
  shows "merge_short_scenes scenes md \<noteq> [] \<and>
         fst (hd (merge_short_scenes scenes md)) = fst (hd scenes) \<and>
         snd (last (merge_short_scenes scenes md)) = snd (last scenes)"
proof -
  from assms obtain s rest where scenes: "scenes = s # rest"
    by (cases scenes) auto
  have "merge_loop md [s] rest \<noteq> []"
    by (rule loop_nonempty) simp
  moreover have "fst (hd (merge_loop md [s] rest)) = fst (hd [s])"
    by (rule loop_hd) simp
  moreover have "snd (last (merge_loop md [s] rest)) = snd (last ([s] @ rest))"
    by (rule loop_last) simp
  ultimately show ?thesis
    using scenes by (simp add: merge_short_scenes_def)
qed

theorem merge_short_scenes_ends_witness:
  "[(0, 2), (2, 3), (3, 10 :: real)] \<noteq> [] \<and>
   merge_short_scenes [(0, 2), (2, 3), (3, 10)] 2 \<noteq> [] \<and>
   fst (hd (merge_short_scenes [(0, 2), (2, 3), (3, 10)] 2)) = 0 \<and>
   snd (last (merge_short_scenes [(0, 2), (2, 3), (3, 10)] 2)) = 10"
proof -
  have n: "[(0, 2), (2, 3), (3, 10 :: real)] \<noteq> []" by simp
  from merge_short_scenes_ends [OF n, of 2] show ?thesis by simp
qed

text \<open>
  Claim C10. For every scene list in which each scene ends where the next one starts and
  no scene ends before it starts, merging the merged list again with the same minimum
  duration changes nothing: every merged scene but the first lasts at least the minimum
  duration.
\<close>

theorem merge_short_scenes_idempotent:
  assumes "contiguous scenes" and "forward scenes"
  shows "merge_short_scenes (merge_short_scenes scenes md) md = merge_short_scenes scenes md \<and>
         list_all (\<lambda>s. md \<le> snd s - fst s) (tl (merge_short_scenes scenes md))"
proof
  have long: "list_all (long_enough md) (tl (merge_short_scenes scenes md))"
    using assms by (rule merge_long)
  then show "merge_short_scenes (merge_short_scenes scenes md) md = merge_short_scenes scenes md"
    by (rule merge_settled)
  from long show "list_all (\<lambda>s. md \<le> snd s - fst s) (tl (merge_short_scenes scenes md))"
    by (simp add: list_all_iff long_enough_def duration_of_def not_less)
qed

theorem merge_short_scenes_idempotent_witness:
  "contiguous [(0, 1), (1, 2), (2, 5), (5, 6), (6, 10)] \<and>
   forward [(0, 1), (1, 2), (2, 5), (5, 6), (6, 10)] \<and>
   merge_short_scenes [(0, 1), (1, 2), (2, 5), (5, 6), (6, 10)] 2 = [(0, 2), (2, 6), (6, 10)] \<and>
   merge_short_scenes [(0, 2), (2, 6), (6, 10)] 2 = [(0, 2), (2, 6), (6, 10)]"
proof -
  have c: "contiguous [(0, 1), (1, 2), (2, 5), (5, 6), (6, 10)]" by simp
  have f: "forward [(0, 1), (1, 2), (2, 5), (5, 6), (6, 10)]" by (simp add: forward_def)
  have m: "merge_short_scenes [(0, 1), (1, 2), (2, 5), (5, 6), (6, 10)] 2
           = [(0, 2), (2, 6), (6, 10)]"
    by (simp add: merge_short_scenes_def)
  from merge_short_scenes_idempotent [OF c f, of 2] c f m show ?thesis by simp
qed

section \<open>Scene detection\<close>

subsection \<open>From boundaries to scenes\<close>

lemma collect_Inr:
  "collect (map (\<lambda>x. Inr (g x)) xs) = Inr (map g xs)"
  by (induction xs) simp_all

lemma scene_at_ok:
  "fps \<noteq> 0 \<Longrightarrow> scene_at fps bs i = Inr (real_of_int (bs ! i) / fps, real_of_int (bs ! (i + 1)) / fps)"
  by (simp add: scene_at_def py_truediv_def)

lemma scenes_of_ok:
  "fps \<noteq> 0 \<Longrightarrow> scenes_of fps bs =
     Inr (map (\<lambda>i. (real_of_int (bs ! i) / fps, real_of_int (bs ! (i + 1)) / fps)) [0..<length bs - 1])"
proof -
  assume "fps \<noteq> 0"
  then have "scene_at fps bs =
      (\<lambda>i. Inr (real_of_int (bs ! i) / fps, real_of_int (bs ! (i + 1)) / fps))"
    by (intro ext) (rule scene_at_ok)
  then show ?thesis by (simp only: scenes_of_def collect_Inr)
qed

lemma scenes_of_zero:
  "2 \<le> length bs \<Longrightarrow> scenes_of 0 bs = Inl ZeroDivisionError"
  by (simp add: scenes_of_def upt_conv_Cons scene_at_def py_truediv_def)

lemma index_pairs:
  "map (\<lambda>i. (h (bs ! i), h (bs ! (i + 1)))) [0..<length bs - 1] =
   map (\<lambda>(a, b). (h a, h b)) (adjacent_pairs bs)"
  by (rule nth_equalityI) (simp_all add: adjacent_pairs_def nth_tl)

lemma contiguous_pairs:
  "contiguous (map (\<lambda>(a, b). (h a, h b)) (adjacent_pairs bs))"
proof (induction bs rule: induct_list012)
  case 1 show ?case by (simp add: adjacent_pairs_def)
next
  case (2 x) show ?case by (simp add: adjacent_pairs_def)
next
  case (3 x y zs)
  then show ?case by (cases zs) (simp_all add: adjacent_pairs_def)
qed

lemma sorted_unique_set: "sorted_unique cs = sorted_list_of_set (set cs)"
  by (simp add: sorted_unique_def sorted_list_of_set_sort_remdups)

lemma length_boundaries: "length (boundaries_of cuts total_frames) = length (sorted_unique cuts) + 2"
  by (simp add: boundaries_of_def)

lemma build_scenes_ok:
  assumes "fps \<noteq> 0"
  shows "build_scenes fps cuts total_frames =
     Inr (map (\<lambda>(a, b). (real_of_int a / fps, real_of_int b / fps))
            (adjacent_pairs (boundaries_of cuts total_frames)))"
proof -
  have "scenes_of fps (boundaries_of cuts total_frames) =
      Inr (map (\<lambda>i. (real_of_int (boundaries_of cuts total_frames ! i) / fps,
                     real_of_int (boundaries_of cuts total_frames ! (i + 1)) / fps))
             [0..<length (boundaries_of cuts total_frames) - 1])"
    using assms by (rule scenes_of_ok)
  also have "\<dots> = Inr (map (\<lambda>(a, b). (real_of_int a / fps, real_of_int b / fps))
            (adjacent_pairs (boundaries_of cuts total_frames)))"
    by (simp only: index_pairs [where h = "\<lambda>a. real_of_int a / fps"])
  finally show ?thesis by (simp only: build_scenes_def)
qed

lemma build_scenes_zero: "build_scenes 0 cuts total_frames = Inl ZeroDivisionError"
  by (simp add: build_scenes_def scenes_of_zero length_boundaries)

subsection \<open>The frame loop, one frame at a time\<close>

declare detect_loop.simps [simp del]

lemma detect_loop_Nil:
  "cap_frames cap = [] \<Longrightarrow>
   detect_loop ext det th mn mx cap pg calls cuts n = (cap, calls, Inr (cuts, n))"
  by (subst detect_loop.simps) (simp add: cap_read_def)

lemma detect_loop_Cons:
  "cap_frames cap = f # rest \<Longrightarrow>
   detect_loop ext det th mn mx cap pg calls cuts n =
     (case cvt_gray ext f of
        None \<Rightarrow> (cap\<lparr>cap_frames := rest\<rparr>, calls, Inl LibraryError)
      | Some gray \<Rightarrow>
          (case absdiff_mean ext pg gray of
             None \<Rightarrow> (cap\<lparr>cap_frames := rest\<rparr>, calls, Inl LibraryError)
           | Some motion_val \<Rightarrow>
               (case det (calls @ [ProcessFrame n f]) of
                  None \<Rightarrow> (cap\<lparr>cap_frames := rest\<rparr>, calls @ [ProcessFrame n f], Inl LibraryError)
                | Some new_cuts \<Rightarrow>
                    detect_loop ext det th mn mx
                      (cap\<lparr>cap_frames := drop (nat (skip_decision th mn mx motion_val)) rest\<rparr>)
                      gray (calls @ [ProcessFrame n f]) (cuts @ new_cuts)
                      (n + int (min (nat (skip_decision th mn mx motion_val)) (length rest)) + 1))))"
  by (subst detect_loop.simps)
     (simp add: cap_read_def skip_loop_frames Let_def split: option.splits)

lemma trace_ok_single:
  "trace_ok ext th mn mx pg n (f # rest) [(n, f)]"
  by (simp add: trace_ok_def)

lemma trace_ok_none:
  "trace_ok ext th mn mx pg n frames []"
  by (simp add: trace_ok_def)

lemma trace_ok_Cons:
  assumes tr: "trace_ok ext th mn mx gray n' (drop k rest) new'"
    and gray: "cvt_gray ext f = Some gray"
    and mv: "absdiff_mean ext pg gray = Some motion_val"
    and k: "k = nat (skip_decision th mn mx motion_val)"
    and n': "n' = n + int (min k (length rest)) + 1"
  shows "trace_ok ext th mn mx pg n (f # rest) ((n, f) # new')"
proof -
  have full: "k < length rest \<and> n' = n + int k + 1" if "new' \<noteq> []"
  proof -
    from tr that have "drop k rest \<noteq> []" by (auto simp: trace_ok_def)
    then have "k < length rest" by simp
    with n' show ?thesis by simp
  qed
  have chain: "index_chain ext th mn mx pg ((n, f) # new')"
  proof (cases new')
    case Nil
    then show ?thesis by simp
  next
    case (Cons p ps)
    with full have kk: "k < length rest" "n' = n + int k + 1" by simp_all
    from tr Cons kk have p: "p = (n', hd (drop k rest))"
      by (auto simp: trace_ok_def)
    from tr have "index_chain ext th mn mx gray new'"
      by (simp add: trace_ok_def)
    with Cons p kk k gray mv show ?thesis by (simp add: max_def)
  qed
  have elems: "n \<le> j \<and> j < n + int (length (f # rest)) \<and> g = (f # rest) ! nat (j - n)"
    if "(j, g) \<in> set new'" for j g
  proof -
    from that have "new' \<noteq> []" by auto
    with full have kk: "k < length rest" "n' = n + int k + 1" by simp_all
    from tr that have b: "n' \<le> j" "j < n' + int (length (drop k rest))"
        "g = drop k rest ! nat (j - n')"
      by (auto simp: trace_ok_def)
    have "nat (j - n) = Suc (k + nat (j - n'))"
      using b(1) kk(2) by simp
    moreover have "k + nat (j - n') < length rest"
      using b(1,2) kk by simp
    ultimately show ?thesis
      using b kk by (simp add: nth_drop)
  qed
  show ?thesis
    unfolding trace_ok_def using chain elems by auto
qed

lemma detect_loop_post:
  "loop_post ext det th mn mx cap pg calls cuts n
     (detect_loop ext det th mn mx cap pg calls cuts n)"
proof (induction "length (cap_frames cap)" arbitrary: cap pg calls cuts n rule: less_induct)
  case less
  show ?case
  proof (cases "cap_frames cap")
    case Nil
    then show ?thesis
      by (simp add: detect_loop_Nil loop_post_def trace_ok_none)
  next
    case (Cons f rest)
    show ?thesis
    proof (cases "cvt_gray ext f")
      case None
      then have "\<not> quiet ext det" by (auto simp: quiet_def)
      with None Cons show ?thesis
        by (simp add: detect_loop_Cons loop_post_def trace_ok_none)
    next
      case gray: (Some gray)
      show ?thesis
      proof (cases "absdiff_mean ext pg gray")
        case None
        then have "\<not> quiet ext det" by (auto simp: quiet_def)
        with None gray Cons show ?thesis
          by (simp add: detect_loop_Cons loop_post_def trace_ok_none)
      next
        case mv: (Some motion_val)
        show ?thesis
        proof (cases "det (calls @ [ProcessFrame n f])")
          case None
          then have nq: "\<not> quiet ext det" by (auto simp: quiet_def)
          have "detect_loop ext det th mn mx cap pg calls cuts n =
                (cap\<lparr>cap_frames := rest\<rparr>, calls @ [ProcessFrame n f], Inl LibraryError)"
            using None gray mv Cons by (simp add: detect_loop_Cons)
          moreover have "trace_ok ext th mn mx pg n (cap_frames cap) [(n, f)]"
            using Cons by (simp add: trace_ok_single)
          ultimately show ?thesis
            using nq unfolding loop_post_def
            by (simp del: ex_simps) (rule exI [of _ "[(n, f)]"], simp)
        next
          case new_cuts: (Some new_cuts)
          define k where "k = nat (skip_decision th mn mx motion_val)"
          define cap' where "cap' = cap\<lparr>cap_frames := drop k rest\<rparr>"
          define n' where "n' = n + int (min k (length rest)) + 1"
          define calls' where "calls' = calls @ [ProcessFrame n f]"
          define cuts' where "cuts' = cuts @ new_cuts"
          have step: "detect_loop ext det th mn mx cap pg calls cuts n =
                      detect_loop ext det th mn mx cap' gray calls' cuts' n'"
            using Cons gray mv new_cuts
            by (simp add: detect_loop_Cons k_def cap'_def n'_def calls'_def cuts'_def)
          obtain cap2 calls2 res where out:
            "detect_loop ext det th mn mx cap' gray calls' cuts' n' = (cap2, calls2, res)"
            by (cases "detect_loop ext det th mn mx cap' gray calls' cuts' n'") auto
          have "length (cap_frames cap') < length (cap_frames cap)"
            using Cons by (simp add: cap'_def)
          from less [OF this, of gray calls' cuts' n'] out
          obtain new' where c: "calls2 = calls' @ map (\<lambda>(k, f). ProcessFrame k f) new'"
            and t: "trace_ok ext th mn mx gray n' (cap_frames cap') new'"
            and rel: "cap_released cap2 = cap_released cap'"
            and opn: "cap_is_opened cap2 = cap_is_opened cap'"
            and r: "case res of
                      Inl e \<Rightarrow> e = LibraryError \<and> \<not> quiet ext det
                    | Inr (cuts2, n2) \<Rightarrow>
                        cap_frames cap2 = [] \<and>
                        n2 = n' + int (length (cap_frames cap')) \<and>
                        (cap_frames cap' \<noteq> [] \<longrightarrow> new' \<noteq> []) \<and>
                        cuts2 = cuts' @ reports det calls' (map (\<lambda>(k, f). ProcessFrame k f) new')"
            unfolding loop_post_def by auto
          have fin: "n' + int (length (cap_frames cap')) = n + int (length (cap_frames cap))"
            using Cons by (cases "k \<le> length rest") (simp_all add: n'_def cap'_def)
          from t have tr: "trace_ok ext th mn mx pg n (cap_frames cap) ((n, f) # new')"
            unfolding Cons
            by (intro trace_ok_Cons [where k = k and n' = n' and gray = gray
                  and motion_val = motion_val])
               (simp_all add: cap'_def k_def n'_def gray mv)
          have rep: "cuts' @ reports det calls' (map (\<lambda>(k, f). ProcessFrame k f) new') =
              cuts @ reports det calls (map (\<lambda>(k, f). ProcessFrame k f) ((n, f) # new'))"
            using new_cuts by (simp add: cuts'_def calls'_def)
          have res': "case res of
                      Inl e \<Rightarrow> e = LibraryError \<and> \<not> quiet ext det
                    | Inr (cuts2, n2) \<Rightarrow>
                        cap_frames cap2 = [] \<and>
                        n2 = n + int (length (cap_frames cap)) \<and>
                        (cap_frames cap \<noteq> [] \<longrightarrow> (n, f) # new' \<noteq> []) \<and>
                        cuts2 = cuts @ reports det calls
                                  (map (\<lambda>(k, f). ProcessFrame k f) ((n, f) # new'))"
            using r fin rep by (auto split: sum.splits)
          have c': "calls2 = calls @ map (\<lambda>(k, f). ProcessFrame k f) ((n, f) # new')"
            using c by (simp add: calls'_def)
          have "cap_released cap2 = cap_released cap" "cap_is_opened cap2 = cap_is_opened cap"
            using rel opn by (simp_all add: cap'_def)
          with c' tr res' show ?thesis
            unfolding step out loop_post_def
            by (simp del: ex_simps list.map) (rule exI [of _ "(n, f) # new'"], simp)
        qed
      qed
    qed
  qed
qed

subsection \<open>The function as a whole\<close>

lemma detect_closed:
  "\<not> cap_is_opened cap \<Longrightarrow>
   detect_scenes_dynamic ext cap th mn mx ath ww mcv =
     \<lparr>returned = Inl IOError, capture = cap, detector_calls = []\<rparr>"
  by (simp add: detect_scenes_dynamic_def)

lemma detect_no_detector:
  "cap_is_opened cap \<Longrightarrow> adaptive_detector ext ath ww mcv 1 = None \<Longrightarrow>
   detect_scenes_dynamic ext cap th mn mx ath ww mcv =
     \<lparr>returned = Inl LibraryError, capture = cap, detector_calls = []\<rparr>"
  by (simp add: detect_scenes_dynamic_def)

lemma detect_empty:
  "cap_is_opened cap \<Longrightarrow> adaptive_detector ext ath ww mcv 1 = Some det \<Longrightarrow>
   cap_frames cap = [] \<Longrightarrow>
   detect_scenes_dynamic ext cap th mn mx ath ww mcv =
     \<lparr>returned = Inr [], capture = cap_release cap, detector_calls = []\<rparr>"
  by (simp add: detect_scenes_dynamic_def cap_read_def)

lemma detect_first_raises:
  "cap_is_opened cap \<Longrightarrow> adaptive_detector ext ath ww mcv 1 = Some det \<Longrightarrow>
   cap_frames cap = f0 # fs \<Longrightarrow> cvt_gray ext f0 = None \<Longrightarrow>
   detect_scenes_dynamic ext cap th mn mx ath ww mcv =
     \<lparr>returned = Inl LibraryError, capture = cap\<lparr>cap_frames := fs\<rparr>, detector_calls = []\<rparr>"
  by (simp add: detect_scenes_dynamic_def cap_read_def)

lemma detect_frames:
  "cap_is_opened cap \<Longrightarrow> adaptive_detector ext ath ww mcv 1 = Some det \<Longrightarrow>
   cap_frames cap = f0 # fs \<Longrightarrow> cvt_gray ext f0 = Some g0 \<Longrightarrow>
   detect_scenes_dynamic ext cap th mn mx ath ww mcv =
     (case detect_loop ext det th mn mx (cap\<lparr>cap_frames := fs\<rparr>) g0 [] [] 1 of
        (cap2, calls, Inl e) \<Rightarrow>
          \<lparr>returned = Inl e, capture = cap2, detector_calls = calls\<rparr>
      | (cap2, calls, Inr (cut_frame_nums, frame_num)) \<Rightarrow>
          (case det (calls @ [PostProcess frame_num]) of
             None \<Rightarrow>
               \<lparr>returned = Inl LibraryError, capture = cap2,
                  detector_calls = calls @ [PostProcess frame_num]\<rparr>
           | Some cuts \<Rightarrow>
               \<lparr>returned = build_scenes (cap_fps cap) (cut_frame_nums @ cuts) (cap_frame_count cap),
                capture = cap_release cap2,
                detector_calls = calls @ [PostProcess frame_num]\<rparr>))"
  by (auto simp: detect_scenes_dynamic_def cap_read_def Let_def
        split: prod.splits sum.splits option.splits)

lemma fed_process: "fed (map (\<lambda>(k, f). ProcessFrame k f) new @ [PostProcess m]) = new"
  by (induction new) auto

lemma fed_process_only: "fed (map (\<lambda>(k, f). ProcessFrame k f) new) = new"
  by (induction new) auto

lemma reports_append:
  "reports det history (xs @ ys) = reports det history xs @ reports det (history @ xs) ys"
  by (induction xs arbitrary: history) simp_all

lemma detect_run:
  assumes "cap_is_opened cap" and det: "adaptive_detector ext ath ww mcv 1 = Some det"
    and fr: "cap_frames cap = f0 # fs" and g0: "cvt_gray ext f0 = Some g0"
  shows "run_post ext det th mn mx cap g0 fs (detect_scenes_dynamic ext cap th mn mx ath ww mcv)"
proof -
  obtain cap2 calls res where out:
    "detect_loop ext det th mn mx (cap\<lparr>cap_frames := fs\<rparr>) g0 [] [] 1 = (cap2, calls, res)"
    by (cases "detect_loop ext det th mn mx (cap\<lparr>cap_frames := fs\<rparr>) g0 [] [] 1") auto
  have "loop_post ext det th mn mx (cap\<lparr>cap_frames := fs\<rparr>) g0 [] [] 1 (cap2, calls, res)"
    using detect_loop_post [of ext det th mn mx "cap\<lparr>cap_frames := fs\<rparr>" g0 "[]" "[]" 1] out
    by simp
  then obtain new where c: "calls = map (\<lambda>(k, f). ProcessFrame k f) new"
    and t: "trace_ok ext th mn mx g0 1 fs new"
    and rel: "cap_released cap2 = cap_released cap"
    and opn: "cap_is_opened cap2 = cap_is_opened cap"
    and r: "case res of
              Inl e \<Rightarrow> e = LibraryError \<and> \<not> quiet ext det
            | Inr (cuts2, n2) \<Rightarrow>
                cap_frames cap2 = [] \<and> n2 = 1 + int (length fs) \<and>
                (fs \<noteq> [] \<longrightarrow> new \<noteq> []) \<and>
                cuts2 = reports det [] (map (\<lambda>(k, f). ProcessFrame k f) new)"
    unfolding loop_post_def by (cases res) auto
  note unfold = detect_frames [OF assms, of th mn mx] out
  show ?thesis
  proof (cases res)
    case (Inl e)
    with r c t rel opn show ?thesis
      by (simp add: unfold run_post_def fed_process_only)
  next
    case (Inr p)
    obtain cuts2 n2 where p: "p = (cuts2, n2)" by (cases p)
    from r Inr p have n2: "n2 = 1 + int (length fs)"
      and ne: "fs \<noteq> [] \<longrightarrow> new \<noteq> []"
      and cuts2: "cuts2 = reports det [] (map (\<lambda>(k, f). ProcessFrame k f) new)"
      by simp_all
    show ?thesis
    proof (cases "det (calls @ [PostProcess n2])")
      case None
      then have "\<not> quiet ext det" by (auto simp: quiet_def)
      with None Inr p c t rel opn show ?thesis
        by (simp add: unfold run_post_def fed_process)
    next
      case (Some flush)
      have "reports det [] (calls @ [PostProcess n2]) = cuts2 @ flush"
        using Some cuts2 c by (simp add: reports_append)
      with Some Inr p c t rel n2 ne show ?thesis
        by (simp add: unfold run_post_def fed_process cap_release_def)
    qed
  qed
qed

subsection \<open>The exits of the function\<close>

lemma build_scenes_errors:
  "build_scenes fps cuts total_frames \<noteq> Inl LibraryError"
  "build_scenes fps cuts total_frames \<noteq> Inl IOError"
  "build_scenes fps cuts total_frames = Inl ZeroDivisionError \<longleftrightarrow> fps = 0"
  "Inl LibraryError \<noteq> build_scenes fps cuts total_frames"
  "Inl IOError \<noteq> build_scenes fps cuts total_frames"
  "Inl ZeroDivisionError = build_scenes fps cuts total_frames \<longleftrightarrow> fps = 0"
  by (cases "fps = 0"; simp add: build_scenes_zero build_scenes_ok)+

lemma detect_cases [case_names closed no_detector empty first_raises run]:
  fixes ext :: "('f, 'g) externals" and cap :: "'f video_capture"
  obtains
    "\<not> cap_is_opened cap"
    "detect_scenes_dynamic ext cap th mn mx ath ww mcv =
       \<lparr>returned = Inl IOError, capture = cap, detector_calls = []\<rparr>"
  | "cap_is_opened cap" "adaptive_detector ext ath ww mcv 1 = None"
    "detect_scenes_dynamic ext cap th mn mx ath ww mcv =
       \<lparr>returned = Inl LibraryError, capture = cap, detector_calls = []\<rparr>"
  | det where "cap_is_opened cap" "adaptive_detector ext ath ww mcv 1 = Some det"
    "cap_frames cap = []"
    "detect_scenes_dynamic ext cap th mn mx ath ww mcv =
       \<lparr>returned = Inr [], capture = cap_release cap, detector_calls = []\<rparr>"
  | det f0 fs where "cap_is_opened cap" "adaptive_detector ext ath ww mcv 1 = Some det"
    "cap_frames cap = f0 # fs" "cvt_gray ext f0 = None"
    "detect_scenes_dynamic ext cap th mn mx ath ww mcv =
       \<lparr>returned = Inl LibraryError, capture = cap\<lparr>cap_frames := fs\<rparr>, detector_calls = []\<rparr>"
  | det f0 fs g0 where "cap_is_opened cap" "adaptive_detector ext ath ww mcv 1 = Some det"
    "cap_frames cap = f0 # fs" "cvt_gray ext f0 = Some g0"
    "run_post ext det th mn mx cap g0 fs (detect_scenes_dynamic ext cap th mn mx ath ww mcv)"
proof (cases "cap_is_opened cap")
  case False
  then show ?thesis using that(1) by (simp add: detect_closed)
next
  case opened: True
  show ?thesis
  proof (cases "adaptive_detector ext ath ww mcv 1")
    case None
    with opened show ?thesis using that(2) by (simp add: detect_no_detector)
  next
    case det: (Some det)
    show ?thesis
    proof (cases "cap_frames cap")
      case Nil
      with opened det show ?thesis using that(3) by (simp add: detect_empty)
    next
      case fr: (Cons f0 fs)
      show ?thesis
      proof (cases "cvt_gray ext f0")
        case None
        with opened det fr show ?thesis using that(4) by (simp add: detect_first_raises)
      next
        case (Some g0)
        with opened det fr show ?thesis using that(5) by (simp add: detect_run)
      qed
    qed
  qed
qed

lemma library_error_cause:
  assumes "returned (detect_scenes_dynamic ext cap th mn mx ath ww mcv) = Inl LibraryError"
  shows "cap_is_opened cap \<and> \<not> never_raises ext ath ww mcv"
proof (cases rule: detect_cases [of cap ext th mn mx ath ww mcv])
  case closed
  with assms show ?thesis by simp
next
  case no_detector
  then show ?thesis by (simp add: never_raises_def)
next
  case (empty det)
  with assms show ?thesis by simp
next
  case (first_raises det f0 fs)
  then have "\<not> quiet ext det" by (auto simp: quiet_def)
  with first_raises show ?thesis by (simp add: never_raises_def)
next
  case (run det f0 fs g0)
  from run(5) assms have "\<not> quiet ext det"
    by (auto simp: run_post_def build_scenes_errors)
  with run show ?thesis by (simp add: never_raises_def)
qed

lemma io_error_iff:
  "returned (detect_scenes_dynamic ext cap th mn mx ath ww mcv) = Inl IOError \<longleftrightarrow>
   \<not> cap_is_opened cap"
proof (cases rule: detect_cases [of cap ext th mn mx ath ww mcv])
  case (run det f0 fs g0)
  then show ?thesis by (auto simp: run_post_def build_scenes_errors)
qed simp_all

lemma zero_division_cause:
  assumes "returned (detect_scenes_dynamic ext cap th mn mx ath ww mcv) = Inl ZeroDivisionError"
  shows "cap_is_opened cap \<and> cap_frames cap \<noteq> [] \<and> cap_fps cap = 0"
proof (cases rule: detect_cases [of cap ext th mn mx ath ww mcv])
  case (run det f0 fs g0)
  with assms show ?thesis by (auto simp: run_post_def build_scenes_errors)
qed (use assms in simp_all)

lemma zero_division_run:
  assumes "cap_is_opened cap" "cap_frames cap \<noteq> []" "cap_fps cap = 0"
    and "never_raises ext ath ww mcv"
  shows "returned (detect_scenes_dynamic ext cap th mn mx ath ww mcv) = Inl ZeroDivisionError"
proof (cases rule: detect_cases [of cap ext th mn mx ath ww mcv])
  case (first_raises det f0 fs)
  then have "\<not> quiet ext det" by (auto simp: quiet_def)
  with first_raises assms(4) show ?thesis by (simp add: never_raises_def)
next
  case (run det f0 fs g0)
  with assms show ?thesis
    by (auto simp: run_post_def never_raises_def build_scenes_errors)
qed (use assms in \<open>simp_all add: never_raises_def\<close>)

lemma still_open:
  assumes "returned (detect_scenes_dynamic ext cap th mn mx ath ww mcv) = Inl LibraryError"
  shows "cap_is_opened (capture (detect_scenes_dynamic ext cap th mn mx ath ww mcv))"
proof (cases rule: detect_cases [of cap ext th mn mx ath ww mcv])
  case (run det f0 fs g0)
  with assms show ?thesis by (auto simp: run_post_def build_scenes_errors)
qed (use assms in simp_all)

lemma released_by_exit:
  "cap_released (capture (detect_scenes_dynamic ext cap th mn mx ath ww mcv)) =
     (if returned (detect_scenes_dynamic ext cap th mn mx ath ww mcv) = Inl IOError \<or>
         returned (detect_scenes_dynamic ext cap th mn mx ath ww mcv) = Inl LibraryError
      then cap_released cap else Suc (cap_released cap))"
proof (cases rule: detect_cases [of cap ext th mn mx ath ww mcv])
  case (run det f0 fs g0)
  then show ?thesis by (auto simp: run_post_def build_scenes_errors)
qed (simp_all add: cap_release_def)

subsection \<open>Evaluation on the example inputs\<close>

lemma quiet_demo: "1 \<le> ww \<Longrightarrow> never_raises demo_externals ath ww mcv"
  by (simp add: never_raises_def demo_externals_def quiet_def split: det_call.splits)

lemmas demo_simps =
  demo_externals_def fragile_externals_def demo_capture_def detect_scenes_dynamic_def
  cap_read_def detect_loop_Cons detect_loop_Nil skip_decision_def cap_release_def
  build_scenes_def boundaries_of_def sorted_unique_def scenes_of_def scene_at_def
  py_truediv_def upt_conv_Cons

subsection \<open>The claims about boundaries, the skip decision and the cut indices\<close>

text \<open>
  Claim C1. For every list of cut indices, every total frame count and every frame rate
  \<open>fps > 0\<close>, the boundary builder returns the adjacent pairs of
  \<open>[0] @ sorted (unique cuts) @ [total_frames]\<close>, each bound divided by \<open>fps\<close>. The
  result has one scene less than there are boundaries, each scene ends exactly where
  the next one starts, the first scene starts at 0 and the last scene ends at
  \<open>total_frames / fps\<close>.
\<close>

theorem build_scenes_contiguous_exhaustive:
  assumes "0 < fps"
  shows "\<exists>scenes. build_scenes fps cuts total_frames = Inr scenes \<and>
     scenes = map (\<lambda>(a, b). (real_of_int a / fps, real_of_int b / fps))
                (adjacent_pairs ([0] @ sorted_list_of_set (set cuts) @ [total_frames])) \<and>
     length scenes = length ([0] @ sorted_list_of_set (set cuts) @ [total_frames]) - 1 \<and>
     contiguous scenes \<and>
     fst (hd scenes) = 0 \<and>
     snd (last scenes) = real_of_int total_frames / fps"
proof -
  define bs where "bs = [0] @ sorted_list_of_set (set cuts) @ [total_frames]"
  define h where "h = (\<lambda>a. real_of_int a / fps)"
  define scenes where "scenes = map (\<lambda>(a, b). (h a, h b)) (adjacent_pairs bs)"
  have bs: "boundaries_of cuts total_frames = bs"
    by (simp add: boundaries_of_def bs_def sorted_unique_set)
  have len: "length bs - 1 = Suc (length (sorted_list_of_set (set cuts)))"
    by (simp add: bs_def)
  have idx: "scenes = map (\<lambda>i. (h (bs ! i), h (bs ! (i + 1)))) [0..<length bs - 1]"
    by (simp only: scenes_def index_pairs)
  have "build_scenes fps cuts total_frames = Inr scenes"
    using assms by (simp add: build_scenes_ok bs scenes_def h_def)
  moreover have "length scenes = length bs - 1"
    by (simp add: idx)
  moreover have "contiguous scenes"
    unfolding scenes_def by (rule contiguous_pairs)
  moreover have "fst (hd scenes) = 0"
    by (simp add: idx len upt_conv_Cons h_def bs_def del: upt_Suc)
  moreover have "snd (last scenes) = real_of_int total_frames / fps"
    by (simp add: idx len h_def bs_def nth_append)
  ultimately show ?thesis
    unfolding scenes_def h_def bs_def by blast
qed

theorem build_scenes_contiguous_exhaustive_witness:
  "(0 :: real) < 30 \<and> build_scenes 30 [210, 90, 90] 300 = Inr [(0, 3), (3, 7), (7, 10)]"
proof -
  have pos: "(0 :: real) < 30" by simp
  from build_scenes_contiguous_exhaustive [OF pos, of "[210, 90, 90]" 300]
  show ?thesis by (simp add: adjacent_pairs_def sorted_list_of_set_sort_remdups)
qed

text \<open>
  Claim C4. The skip decision is \<open>min_skip\<close> when the motion value is strictly greater
  than the motion threshold and \<open>max_skip\<close> otherwise, so a motion value equal to the
  threshold gives \<open>max_skip\<close>; with threshold 5, motion 6 gives \<open>min_skip\<close> and
  motion 3 gives \<open>max_skip\<close>.
\<close>

theorem skip_decision_policy:
  "skip_decision motion_threshold min_skip max_skip motion_val =
     (if motion_threshold < motion_val then min_skip else max_skip) \<and>
   skip_decision motion_threshold min_skip max_skip motion_threshold = max_skip \<and>
   skip_decision 5 min_skip max_skip 6 = min_skip \<and>
   skip_decision 5 min_skip max_skip 3 = max_skip"
  by (simp add: skip_decision_def)

lemma count_list_distinct:
  "distinct xs \<Longrightarrow> count_list xs c = (if c \<in> set xs then 1 else 0)"
  by (induction xs) auto

text \<open>
  Claim C5. The cut indices between the two sentinels of the boundary list are the
  indices the detector reported, per frame (\<open>incremental\<close>) or at the final flush
  (\<open>flush\<close>), each exactly once and in ascending order, also when an index was
  reported on both paths. In a run on a source that opens and yields a frame, and in
  which no library call raises, the scenes are built from the boundary list of
  everything the detector returned, to the calls per frame and to the flush.
\<close>

theorem cut_indices_deduplicated:
  "boundaries_of (incremental @ flush) total_frames =
     [0] @ sorted_unique (incremental @ flush) @ [total_frames] \<and>
   sorted_unique (incremental @ flush) = sorted_list_of_set (set incremental \<union> set flush) \<and>
   sorted_wrt (<) (sorted_unique (incremental @ flush)) \<and>
   set (sorted_unique (incremental @ flush)) = set incremental \<union> set flush \<and>
   count_list (sorted_unique (incremental @ flush)) c =
     (if c \<in> set incremental \<union> set flush then 1 else 0) \<and>
   sorted_unique ([90, 210] @ [210]) = [90, 210] \<and>
   (cap_is_opened cap \<and> cap_frames cap \<noteq> [] \<and>
    adaptive_detector ext ath ww mcv 1 = Some det \<and>
    returned (detect_scenes_dynamic ext cap th mn mx ath ww mcv) \<noteq> Inl LibraryError \<longrightarrow>
      returned (detect_scenes_dynamic ext cap th mn mx ath ww mcv) =
        scenes_of (cap_fps cap)
          ([0] @ sorted_unique
                   (reports det [] (detector_calls (detect_scenes_dynamic ext cap th mn mx ath ww mcv)))
             @ [cap_frame_count cap]))"
proof (intro conjI impI)
  have su: "sorted_unique (incremental @ flush) = sorted_list_of_set (set incremental \<union> set flush)"
    by (simp add: sorted_unique_set)
  show "boundaries_of (incremental @ flush) total_frames =
     [0] @ sorted_unique (incremental @ flush) @ [total_frames]"
    by (simp add: boundaries_of_def)
  show "sorted_unique (incremental @ flush) = sorted_list_of_set (set incremental \<union> set flush)"
    by (rule su)
  show "sorted_wrt (<) (sorted_unique (incremental @ flush))"
    by (simp add: su strict_sorted_iff del: set_append)
  show "set (sorted_unique (incremental @ flush)) = set incremental \<union> set flush"
    by (simp add: su)
  show "count_list (sorted_unique (incremental @ flush)) c =
     (if c \<in> set incremental \<union> set flush then 1 else 0)"
    by (simp add: su count_list_distinct)
  show "sorted_unique ([90, 210] @ [210]) = [90, 210]"
    by (simp add: sorted_unique_def)
next
  assume a: "cap_is_opened cap \<and> cap_frames cap \<noteq> [] \<and>
    adaptive_detector ext ath ww mcv 1 = Some det \<and>
    returned (detect_scenes_dynamic ext cap th mn mx ath ww mcv) \<noteq> Inl LibraryError"
  have "returned (detect_scenes_dynamic ext cap th mn mx ath ww mcv) =
           build_scenes (cap_fps cap)
             (reports det [] (detector_calls (detect_scenes_dynamic ext cap th mn mx ath ww mcv)))
             (cap_frame_count cap)"
  proof (cases rule: detect_cases [of cap ext th mn mx ath ww mcv])
    case (run det' f0 fs g0)
    with a show ?thesis by (auto simp: run_post_def)
  qed (use a in simp_all)
  then show "returned (detect_scenes_dynamic ext cap th mn mx ath ww mcv) =
        scenes_of (cap_fps cap)
          ([0] @ sorted_unique
                   (reports det [] (detector_calls (detect_scenes_dynamic ext cap th mn mx ath ww mcv)))
             @ [cap_frame_count cap])"
    by (simp only: build_scenes_def boundaries_of_def)
qed

text \<open>
  In the example run the detector reports the index 2 for the frame with index 2 and
  again at the flush, and the scenes have the one boundary 2.
\<close>

theorem cut_indices_deduplicated_witness:
  "cap_is_opened (demo_capture [10, 11, 12, 13] 1) \<and>
   cap_frames (demo_capture [10, 11, 12, 13] 1) \<noteq> [] \<and>
   detector_calls (detect_scenes_dynamic demo_externals (demo_capture [10, 11, 12, 13] 1) 5 0 0 3 2 15) =
     [ProcessFrame 1 11, ProcessFrame 2 12, ProcessFrame 3 13, PostProcess 4] \<and>
   reports (the (adaptive_detector demo_externals 3 2 15 1)) []
     [ProcessFrame 1 11, ProcessFrame 2 12] = [2] \<and>
   reports (the (adaptive_detector demo_externals 3 2 15 1)) []
     [ProcessFrame 1 11, ProcessFrame 2 12, ProcessFrame 3 13, PostProcess 4] = [2, 2] \<and>
   returned (detect_scenes_dynamic demo_externals (demo_capture [10, 11, 12, 13] 1) 5 0 0 3 2 15) =
     Inr [(0, 2), (2, 4)]"
proof -
  define det :: "nat detector" where
    "det = (\<lambda>calls. case last calls of
                      ProcessFrame n frame \<Rightarrow> Some (if n = 2 then [2] else [])
                    | PostProcess n \<Rightarrow> Some [2])"
  have mk: "adaptive_detector demo_externals 3 2 15 1 = Some det"
    by (simp add: demo_externals_def det_def)
  have run: "detect_scenes_dynamic demo_externals (demo_capture [10, 11, 12, 13] 1) 5 0 0 3 2 15 =
     \<lparr>returned = Inr [(0, 2), (2, 4)],
      capture = \<lparr>cap_is_opened = False, cap_fps = 1, cap_frame_count = 4, cap_frames = [],
                 cap_released = 1\<rparr>,
      detector_calls =
        [ProcessFrame 1 11, ProcessFrame 2 12, ProcessFrame 3 13, PostProcess 4]\<rparr>"
    by (simp add: demo_simps)
  have reps: "reports det []
     [ProcessFrame 1 11, ProcessFrame 2 12, ProcessFrame 3 13, PostProcess 4] = [2, 2]"
    by (simp add: det_def)
  from cut_indices_deduplicated
    [of "[]" "[]" 0 0 "demo_capture [10, 11, 12, 13] 1" demo_externals 3 2 15 det 5 0 0]
    mk run reps
  show ?thesis
    by (simp add: demo_capture_def det_def)
qed

subsection \<open>The claims about the run of the detection\<close>

text \<open>
  Claim C6, as amended. \<open>detect_scenes_dynamic\<close> raises the \<open>IOError\<close> of line 32 if
  and only if the source cannot be opened, and then at once: no frame has been read, the
  detector has not been called, and nothing is returned. With the source opened it fails
  in two other ways only: a library call raises (the construction of the detector, the
  gray conversion, the difference, a call of the detector), or the frame rate is 0 and a
  frame was read, which gives \<open>ZeroDivisionError\<close> at line 79, as it does in every
  such run in which no library call raises. So when no library call
  raises and the frame rate is not 0, or the source has no frame, the function fails if
  and only if the source cannot be opened. A source that opens and yields no frame is not
  an error when the construction of the detector does not raise: the function returns
  the empty scene list.
\<close>

theorem detect_scenes_dynamic_errors:
  "(returned (detect_scenes_dynamic ext cap th mn mx ath ww mcv) = Inl IOError \<longleftrightarrow>
      \<not> cap_is_opened cap) \<and>
   (\<not> cap_is_opened cap \<longrightarrow>
      detect_scenes_dynamic ext cap th mn mx ath ww mcv =
        \<lparr>returned = Inl IOError, capture = cap, detector_calls = []\<rparr>) \<and>
   (returned (detect_scenes_dynamic ext cap th mn mx ath ww mcv) = Inl ZeroDivisionError \<longrightarrow>
      cap_is_opened cap \<and> cap_frames cap \<noteq> [] \<and> cap_fps cap = 0) \<and>
   (cap_is_opened cap \<and> cap_frames cap \<noteq> [] \<and> cap_fps cap = 0 \<and>
    never_raises ext ath ww mcv \<longrightarrow>
      returned (detect_scenes_dynamic ext cap th mn mx ath ww mcv) = Inl ZeroDivisionError) \<and>
   (returned (detect_scenes_dynamic ext cap th mn mx ath ww mcv) = Inl LibraryError \<longrightarrow>
      cap_is_opened cap \<and> \<not> never_raises ext ath ww mcv) \<and>
   (never_raises ext ath ww mcv \<and> (cap_fps cap \<noteq> 0 \<or> cap_frames cap = []) \<longrightarrow>
      (isl (returned (detect_scenes_dynamic ext cap th mn mx ath ww mcv)) \<longleftrightarrow>
       \<not> cap_is_opened cap)) \<and>
   (cap_is_opened cap \<and> cap_frames cap = [] \<and> adaptive_detector ext ath ww mcv 1 \<noteq> None \<longrightarrow>
      returned (detect_scenes_dynamic ext cap th mn mx ath ww mcv) = Inr [])"
proof -
  have io: "returned (detect_scenes_dynamic ext cap th mn mx ath ww mcv) = Inl IOError \<longleftrightarrow>
      \<not> cap_is_opened cap"
    by (rule io_error_iff)
  have closed: "\<not> cap_is_opened cap \<longrightarrow>
      detect_scenes_dynamic ext cap th mn mx ath ww mcv =
        \<lparr>returned = Inl IOError, capture = cap, detector_calls = []\<rparr>"
    by (simp add: detect_closed)
  have zero: "returned (detect_scenes_dynamic ext cap th mn mx ath ww mcv) = Inl ZeroDivisionError \<longrightarrow>
      cap_is_opened cap \<and> cap_frames cap \<noteq> [] \<and> cap_fps cap = 0"
    using zero_division_cause [of ext cap th mn mx ath ww mcv] by blast
  have zero': "cap_is_opened cap \<and> cap_frames cap \<noteq> [] \<and> cap_fps cap = 0 \<and>
      never_raises ext ath ww mcv \<longrightarrow>
      returned (detect_scenes_dynamic ext cap th mn mx ath ww mcv) = Inl ZeroDivisionError"
    using zero_division_run [of cap ext ath ww mcv th mn mx] by blast
  have lib: "returned (detect_scenes_dynamic ext cap th mn mx ath ww mcv) = Inl LibraryError \<longrightarrow>
      cap_is_opened cap \<and> \<not> never_raises ext ath ww mcv"
    using library_error_cause [of ext cap th mn mx ath ww mcv] by blast
  have iff: "isl (returned (detect_scenes_dynamic ext cap th mn mx ath ww mcv)) \<longleftrightarrow>
       \<not> cap_is_opened cap"
    if a: "never_raises ext ath ww mcv \<and> (cap_fps cap \<noteq> 0 \<or> cap_frames cap = [])"
  proof
    assume "isl (returned (detect_scenes_dynamic ext cap th mn mx ath ww mcv))"
    then obtain e where e: "returned (detect_scenes_dynamic ext cap th mn mx ath ww mcv) = Inl e"
      by (cases "returned (detect_scenes_dynamic ext cap th mn mx ath ww mcv)") auto
    show "\<not> cap_is_opened cap"
    proof (cases e)
      case IOError
      with e io show ?thesis by simp
    next
      case ZeroDivisionError
      with e a zero show ?thesis by auto
    next
      case LibraryError
      with e a lib show ?thesis by auto
    qed
  next
    assume "\<not> cap_is_opened cap"
    then show "isl (returned (detect_scenes_dynamic ext cap th mn mx ath ww mcv))"
      by (simp add: detect_closed)
  qed
  have empty: "cap_is_opened cap \<and> cap_frames cap = [] \<and>
      adaptive_detector ext ath ww mcv 1 \<noteq> None \<longrightarrow>
      returned (detect_scenes_dynamic ext cap th mn mx ath ww mcv) = Inr []"
    by (auto simp: detect_empty)
  from io closed zero zero' lib iff empty show ?thesis
    by (intro conjI impI) blast+
qed

theorem detect_scenes_dynamic_errors_witness:
  "\<not> cap_is_opened ((demo_capture [10, 11] 30)\<lparr>cap_is_opened := False\<rparr>) \<and>
   detect_scenes_dynamic demo_externals ((demo_capture [10, 11] 30)\<lparr>cap_is_opened := False\<rparr>)
       5 0 5 3 2 15
     = \<lparr>returned = Inl IOError, capture = (demo_capture [10, 11] 30)\<lparr>cap_is_opened := False\<rparr>,
        detector_calls = []\<rparr> \<and>
   returned (detect_scenes_dynamic demo_externals (demo_capture [10, 11] 0) 5 0 5 3 2 15)
     = Inl ZeroDivisionError \<and>
   cap_is_opened (demo_capture [10, 11] 0) \<and>
   cap_frames (demo_capture [10, 11] 0) \<noteq> [] \<and>
   cap_fps (demo_capture [10, 11] 0) = 0 \<and>
   returned (detect_scenes_dynamic demo_externals (demo_capture [10, 11] 30) 5 0 5 3 0 15)
     = Inl LibraryError \<and>
   \<not> never_raises demo_externals 3 0 15 \<and>
   never_raises demo_externals 3 2 15 \<and>
   cap_fps (demo_capture [10, 11, 12, 13] 1) \<noteq> 0 \<and>
   cap_is_opened (demo_capture [10, 11, 12, 13] 1) \<and>
   returned (detect_scenes_dynamic demo_externals (demo_capture [10, 11, 12, 13] 1) 5 0 0 3 2 15)
     = Inr [(0, 2), (2, 4)] \<and>
   cap_is_opened (demo_capture [] 30) \<and>
   cap_frames (demo_capture [] 30) = [] \<and>
   adaptive_detector demo_externals 3 2 15 1 \<noteq> None \<and>
   returned (detect_scenes_dynamic demo_externals (demo_capture [] 30) 5 0 5 3 2 15) = Inr []"
proof -
  have runs:
    "returned (detect_scenes_dynamic demo_externals (demo_capture [10, 11] 0) 5 0 5 3 2 15)
       = Inl ZeroDivisionError"
    "returned (detect_scenes_dynamic demo_externals (demo_capture [10, 11] 30) 5 0 5 3 0 15)
       = Inl LibraryError"
    "returned (detect_scenes_dynamic demo_externals (demo_capture [10, 11, 12, 13] 1) 5 0 0 3 2 15)
       = Inr [(0, 2), (2, 4)]"
    by (simp_all add: demo_simps)
  have q: "never_raises demo_externals 3 2 15"
    by (rule quiet_demo) simp
  have made: "adaptive_detector demo_externals 3 2 15 1 \<noteq> None"
    by (simp add: demo_externals_def)
  from runs q made
    detect_scenes_dynamic_errors
      [of demo_externals "(demo_capture [10, 11] 30)\<lparr>cap_is_opened := False\<rparr>" 5 0 5 3 2 15]
    detect_scenes_dynamic_errors [of demo_externals "demo_capture [10, 11] 0" 5 0 5 3 2 15]
    detect_scenes_dynamic_errors [of demo_externals "demo_capture [10, 11] 30" 5 0 5 3 0 15]
    detect_scenes_dynamic_errors [of demo_externals "demo_capture [10, 11, 12, 13] 1" 5 0 0 3 2 15]
    detect_scenes_dynamic_errors [of demo_externals "demo_capture [] 30" 5 0 5 3 2 15]
  show ?thesis by (simp add: demo_capture_def)
qed

text \<open>
  Claim C6, as stated, fails on sources that open: with a frame and the frame rate 0
  the division of line 79 raises \<open>ZeroDivisionError\<close>; and with no frame at all, a
  detector whose construction raises (here for the window width 0) makes the function
  fail at lines 36 to 41, before the first read.
\<close>

theorem detect_scenes_dynamic_errors_counterexample:
  "cap_is_opened (demo_capture [10, 11] 0) \<and>
   returned (detect_scenes_dynamic demo_externals (demo_capture [10, 11] 0) 5 0 5 3 2 15)
     = Inl ZeroDivisionError \<and>
   \<not> (isl (returned (detect_scenes_dynamic demo_externals (demo_capture [10, 11] 0) 5 0 5 3 2 15))
        \<longleftrightarrow> \<not> cap_is_opened (demo_capture [10, 11] 0)) \<and>
   cap_is_opened (demo_capture [] 30) \<and>
   cap_frames (demo_capture [] 30) = [] \<and>
   returned (detect_scenes_dynamic demo_externals (demo_capture [] 30) 5 0 5 3 0 15)
     = Inl LibraryError"
  by (simp add: demo_simps)




text \<open>
  Claim C8, as amended. The capture is released exactly once on every exit of
  \<open>detect_scenes_dynamic\<close> that passes line 45 or line 75: the early return on a source
  without frames, the return after the loop, and the \<open>ZeroDivisionError\<close> of line 79,
  which follows the release. On the two other exits it has not been released: when the
  source cannot be opened, line 32 raises before any call of \<open>release\<close>; and when a
  library call raises between the open and line 75, the exception leaves the function
  with the capture open, since there is no \<^verbatim>\<open>try\<close> statement.
\<close>

theorem detect_scenes_dynamic_release:
  "(\<not> isl (returned (detect_scenes_dynamic ext cap th mn mx ath ww mcv)) \<longrightarrow>
      cap_released (capture (detect_scenes_dynamic ext cap th mn mx ath ww mcv)) =
        Suc (cap_released cap)) \<and>
   (returned (detect_scenes_dynamic ext cap th mn mx ath ww mcv) = Inl ZeroDivisionError \<longrightarrow>
      cap_released (capture (detect_scenes_dynamic ext cap th mn mx ath ww mcv)) =
        Suc (cap_released cap)) \<and>
   (returned (detect_scenes_dynamic ext cap th mn mx ath ww mcv) = Inl IOError \<longrightarrow>
      \<not> cap_is_opened cap \<and>
      cap_released (capture (detect_scenes_dynamic ext cap th mn mx ath ww mcv)) =
        cap_released cap) \<and>
   (returned (detect_scenes_dynamic ext cap th mn mx ath ww mcv) = Inl LibraryError \<longrightarrow>
      cap_is_opened cap \<and>
      cap_is_opened (capture (detect_scenes_dynamic ext cap th mn mx ath ww mcv)) \<and>
      cap_released (capture (detect_scenes_dynamic ext cap th mn mx ath ww mcv)) =
        cap_released cap)"
proof -
  let ?r = "detect_scenes_dynamic ext cap th mn mx ath ww mcv"
  note rel = released_by_exit [of ext cap th mn mx ath ww mcv]
  have ok: "\<not> isl (returned ?r) \<longrightarrow> cap_released (capture ?r) = Suc (cap_released cap)"
    using rel by (cases "returned ?r") auto
  have zero: "returned ?r = Inl ZeroDivisionError \<longrightarrow>
      cap_released (capture ?r) = Suc (cap_released cap)"
    using rel by auto
  have io: "returned ?r = Inl IOError \<longrightarrow>
      \<not> cap_is_opened cap \<and> cap_released (capture ?r) = cap_released cap"
    using rel io_error_iff [of ext cap th mn mx ath ww mcv] by auto
  have lib: "returned ?r = Inl LibraryError \<longrightarrow>
      cap_is_opened cap \<and> cap_is_opened (capture ?r) \<and>
      cap_released (capture ?r) = cap_released cap"
    using rel library_error_cause [of ext cap th mn mx ath ww mcv]
      still_open [of ext cap th mn mx ath ww mcv] by auto
  from ok zero io lib show ?thesis by blast
qed

theorem detect_scenes_dynamic_release_witness:
  "returned (detect_scenes_dynamic demo_externals (demo_capture [10, 11, 12, 13] 1) 5 0 0 3 2 15)
     = Inr [(0, 2), (2, 4)] \<and>
   cap_released (demo_capture [10, 11, 12, 13] 1) = 0 \<and>
   cap_released (capture
     (detect_scenes_dynamic demo_externals (demo_capture [10, 11, 12, 13] 1) 5 0 0 3 2 15)) = 1 \<and>
   returned (detect_scenes_dynamic demo_externals (demo_capture [] 30) 5 0 5 3 2 15) = Inr [] \<and>
   cap_released (capture
     (detect_scenes_dynamic demo_externals (demo_capture [] 30) 5 0 5 3 2 15)) = 1 \<and>
   returned (detect_scenes_dynamic demo_externals (demo_capture [10, 11] 0) 5 0 5 3 2 15)
     = Inl ZeroDivisionError \<and>
   cap_released (capture
     (detect_scenes_dynamic demo_externals (demo_capture [10, 11] 0) 5 0 5 3 2 15)) = 1 \<and>
   returned (detect_scenes_dynamic demo_externals
      ((demo_capture [10, 11] 30)\<lparr>cap_is_opened := False\<rparr>) 5 0 5 3 2 15) = Inl IOError \<and>
   cap_released (capture (detect_scenes_dynamic demo_externals
      ((demo_capture [10, 11] 30)\<lparr>cap_is_opened := False\<rparr>) 5 0 5 3 2 15)) = 0 \<and>
   returned (detect_scenes_dynamic fragile_externals (demo_capture [10, 11, 0, 13] 1) 5 0 0 3 2 15)
     = Inl LibraryError \<and>
   cap_is_opened (capture
     (detect_scenes_dynamic fragile_externals (demo_capture [10, 11, 0, 13] 1) 5 0 0 3 2 15)) \<and>
   cap_released (capture
     (detect_scenes_dynamic fragile_externals (demo_capture [10, 11, 0, 13] 1) 5 0 0 3 2 15)) = 0"
proof -
  have runs:
    "returned (detect_scenes_dynamic demo_externals (demo_capture [10, 11, 12, 13] 1) 5 0 0 3 2 15)
       = Inr [(0, 2), (2, 4)]"
    "returned (detect_scenes_dynamic demo_externals (demo_capture [] 30) 5 0 5 3 2 15) = Inr []"
    "returned (detect_scenes_dynamic demo_externals (demo_capture [10, 11] 0) 5 0 5 3 2 15)
       = Inl ZeroDivisionError"
    "returned (detect_scenes_dynamic demo_externals
        ((demo_capture [10, 11] 30)\<lparr>cap_is_opened := False\<rparr>) 5 0 5 3 2 15) = Inl IOError"
    "returned (detect_scenes_dynamic fragile_externals (demo_capture [10, 11, 0, 13] 1) 5 0 0 3 2 15)
       = Inl LibraryError"
    by (simp_all add: demo_simps)
  from runs
    detect_scenes_dynamic_release [of demo_externals "demo_capture [10, 11, 12, 13] 1" 5 0 0 3 2 15]
    detect_scenes_dynamic_release [of demo_externals "demo_capture [] 30" 5 0 5 3 2 15]
    detect_scenes_dynamic_release [of demo_externals "demo_capture [10, 11] 0" 5 0 5 3 2 15]
    detect_scenes_dynamic_release
      [of demo_externals "(demo_capture [10, 11] 30)\<lparr>cap_is_opened := False\<rparr>" 5 0 5 3 2 15]
    detect_scenes_dynamic_release
      [of fragile_externals "demo_capture [10, 11, 0, 13] 1" 5 0 0 3 2 15]
  show ?thesis by (simp add: demo_capture_def)
qed

text \<open>
  Claim C8, as stated, fails on a source that cannot be opened: line 32 raises before
  any call of \<open>release\<close>. It fails also after a successful open when a library call
  raises: for the window width 0 the construction of the detector raises, and on a frame
  that cannot be converted the loop raises; in both runs the function ends with the
  capture open and never released.
\<close>

theorem detect_scenes_dynamic_release_counterexample:
  "returned (detect_scenes_dynamic demo_externals
      ((demo_capture [10, 11] 30)\<lparr>cap_is_opened := False\<rparr>) 5 0 5 3 2 15) = Inl IOError \<and>
   cap_released ((demo_capture [10, 11] 30)\<lparr>cap_is_opened := False\<rparr>) = 0 \<and>
   cap_released (capture (detect_scenes_dynamic demo_externals
      ((demo_capture [10, 11] 30)\<lparr>cap_is_opened := False\<rparr>) 5 0 5 3 2 15)) = 0 \<and>
   cap_released (capture (detect_scenes_dynamic demo_externals
      ((demo_capture [10, 11] 30)\<lparr>cap_is_opened := False\<rparr>) 5 0 5 3 2 15)) \<noteq>
     Suc (cap_released ((demo_capture [10, 11] 30)\<lparr>cap_is_opened := False\<rparr>)) \<and>
   cap_is_opened (demo_capture [10, 11] 30) \<and>
   detect_scenes_dynamic demo_externals (demo_capture [10, 11] 30) 5 0 5 3 0 15 =
     \<lparr>returned = Inl LibraryError, capture = demo_capture [10, 11] 30, detector_calls = []\<rparr> \<and>
   cap_released (demo_capture [10, 11] 30) = 0 \<and>
   detect_scenes_dynamic fragile_externals (demo_capture [10, 11, 0, 13] 1) 5 0 0 3 2 15 =
     \<lparr>returned = Inl LibraryError,
      capture = \<lparr>cap_is_opened = True, cap_fps = 1, cap_frame_count = 4, cap_frames = [13],
                 cap_released = 0\<rparr>,
      detector_calls = [ProcessFrame 1 11]\<rparr>"
  by (simp add: demo_simps)

end
